theory Spec2Isabelle
  imports Main "HOL-Library.Sublist" "HOL-Library.AList" "HOL-Library.Char_ord"
    "HOL-Library.List_Lexorder"
begin

section \<open>JavaScript strings and values used by \<open>main.js\<close>\<close>

text \<open>
  The event name (the \<open>x-appwrite-event\<close> header) is a string on which the code only ever
  calls \<open>String.prototype.includes\<close> and \<open>String.prototype.split\<close>.  Both are embedded as
  list functions on \<open>string\<close>.
\<close>

fun js_includes :: "string \<Rightarrow> string \<Rightarrow> bool" where
  "js_includes [] p = (p = [])"
| "js_includes (c # cs) p = (prefix p (c # cs) \<or> js_includes cs p)"

fun js_split :: "char \<Rightarrow> string \<Rightarrow> string list" where
  "js_split d [] = [[]]"
| "js_split d (c # cs) =
     (if c = d then [] # js_split d cs
      else (case js_split d cs of [] \<Rightarrow> [[c]] | w # ws \<Rightarrow> (c # w) # ws))"

text \<open>\<open>xs[i]\<close> of JavaScript: \<open>undefined\<close> (here \<open>None\<close>) when the index is out of range.\<close>

fun js_index :: "'a list \<Rightarrow> nat \<Rightarrow> 'a option" where
  "js_index [] i = None"
| "js_index (x # xs) 0 = Some x"
| "js_index (x # xs) (Suc i) = js_index xs i"

text \<open>
  A payload field is absent (\<open>None\<close>) or a string.  \<open>undefined\<close> and the empty string are
  the falsy values; \<open>a || b\<close> yields \<open>a\<close> when it is truthy and \<open>b\<close> otherwise.
\<close>

definition truthy :: "string option \<Rightarrow> bool" where
  "truthy v = (case v of None \<Rightarrow> False | Some s \<Rightarrow> s \<noteq> [])"

definition js_or :: "string option \<Rightarrow> string option \<Rightarrow> string option" where
  "js_or a b = (if truthy a then a else b)"

section \<open>Data model\<close>

text \<open>The three collection identifiers read from \<open>process.env\<close>.\<close>

record env =
  APPWRITE_NOTE_COLLECTION_ID :: string
  APPWRITE_FORM_COLLECTION_ID :: string
  APPWRITE_YOUTUBE_COLLECTION_ID :: string

text \<open>The request body: the fields of the created or deleted document that the tasks read.\<close>

record eventData =
  userName :: "string option"
  createdBy :: "string option"
  abbreviation_field :: "string option"

text \<open>
  An entry of the stats document.  The counters are the integers the code keeps in JavaScript
  numbers; adding or subtracting one is exact on them up to \<open>2 ^ 53\<close>, and the statements
  on exact totals below keep the runs shorter than that.
\<close>

record stats_entry =
  name :: string
  notes_count :: int
  forms :: int
  youtube :: int
  total_count :: int

text \<open>
  A cache document is a JSON object whose values are arrays of names, kept as an association
  list in insertion order.
\<close>

type_synonym cache_obj = "(string \<times> string list) list"

text \<open>
  The store holds the three aggregate documents.  A document may not exist (\<open>getDocument\<close>
  and \<open>updateDocument\<close> then reject), and when it exists its \<open>data\<close> field is absent or
  empty (\<open>None\<close>) or holds the serialised value (\<open>Some\<close>, with \<open>JSON.parse\<close> after
  \<open>JSON.stringify\<close> taken as the identity).  \<open>calls\<close> records the store calls made, in order.
\<close>

datatype 'a slot = NoDocument | Document "'a option"

datatype doc_id = STATS_DOCUMENT_ID | LINKS_UPLOADERS_CACHE_DOCUMENT_ID | UPLOADERS_CACHE_DOCUMENT_ID

datatype call = GetDocument doc_id | UpdateDocument doc_id

record db =
  stats_doc :: "stats_entry list slot"
  links_doc :: "cache_obj slot"
  uploaders_doc :: "cache_obj slot"
  calls :: "call list"

datatype error = StoreError | TypeError | ClientError

text \<open>
  What \<open>JSON.parse\<close> returns in \<open>getAndParseJSON\<close>: the stored value, or the empty object
  \<open>{}\<close> obtained from the default text \<open>'{}'\<close>.
\<close>

datatype 'a json = EmptyObject | Parsed 'a

section \<open>Store access\<close>

definition getDocument :: "'a slot \<Rightarrow> error + 'a option" where
  "getDocument sl = (case sl of NoDocument \<Rightarrow> Inl StoreError | Document d \<Rightarrow> Inr d)"

definition updateDocument :: "'a slot \<Rightarrow> 'a \<Rightarrow> error + 'a slot" where
  "updateDocument sl v =
     (case sl of NoDocument \<Rightarrow> Inl StoreError | Document d \<Rightarrow> Inr (Document (Some v)))"

text \<open>\<open>JSON.parse(document.data || '{}')\<close>, after the \<open>getDocument\<close> that may reject.\<close>

definition getAndParseJSON :: "'a slot \<Rightarrow> error + 'a json" where
  "getAndParseJSON sl =
     (case getDocument sl of
        Inl e \<Rightarrow> Inl e
      | Inr document_data \<Rightarrow>
          Inr (case document_data of None \<Rightarrow> EmptyObject | Some v \<Rightarrow> Parsed v))"

section \<open>Task 1: teacher stats\<close>

text \<open>
  Lines 34 to 46: the collection identifier is the segment at index 3 of the event name, the
  increment is \<open>1\<close> when the event name contains \<open>.create\<close> and \<open>-1\<close> otherwise; the three
  category counters and the total are updated and then clamped at zero.
\<close>

definition increment :: "string \<Rightarrow> int" where
  "increment event = (if js_includes event ''.create'' then 1 else - 1)"

definition add_increment :: "env \<Rightarrow> string \<Rightarrow> stats_entry \<Rightarrow> stats_entry" where
  "add_increment e event userStats =
     (let collectionId = js_index (js_split CHR ''.'' event) 3;
          u1 = (if collectionId = Some (APPWRITE_NOTE_COLLECTION_ID e)
                then userStats\<lparr>notes_count := notes_count userStats + increment event\<rparr> else userStats);
          u2 = (if collectionId = Some (APPWRITE_FORM_COLLECTION_ID e)
                then u1\<lparr>forms := forms u1 + increment event\<rparr> else u1);
          u3 = (if collectionId = Some (APPWRITE_YOUTUBE_COLLECTION_ID e)
                then u2\<lparr>youtube := youtube u2 + increment event\<rparr> else u2)
      in u3\<lparr>total_count := total_count u3 + increment event\<rparr>)"

definition clamp_counts :: "stats_entry \<Rightarrow> stats_entry" where
  "clamp_counts u =
     u\<lparr>notes_count := max 0 (notes_count u), forms := max 0 (forms u),
       youtube := max 0 (youtube u), total_count := max 0 (total_count u)\<rparr>"

text \<open>
  Lines 27 to 32 and the aliasing of \<open>userStats\<close>: the first entry whose name is
  \<open>userName\<close> is the one mutated in place; when there is none, a zero entry is pushed at the
  end of the array and that one is mutated.
\<close>

fun with_userStats :: "string \<Rightarrow> (stats_entry \<Rightarrow> stats_entry) \<Rightarrow> stats_entry list \<Rightarrow> stats_entry list" where
  "with_userStats n f [] = [f \<lparr>name = n, notes_count = 0, forms = 0, youtube = 0, total_count = 0\<rparr>]"
| "with_userStats n f (u # us) =
     (if name u = n then f u # us else u # with_userStats n f us)"

definition mutate_stats :: "env \<Rightarrow> string \<Rightarrow> string \<Rightarrow> stats_entry list \<Rightarrow> stats_entry list" where
  "mutate_stats e event n statsData =
     with_userStats n (\<lambda>u. clamp_counts (add_increment e event u)) statsData"

text \<open>
  Line 48, \<open>statsData.sort((a, b) => b.total - a.total)\<close>: the sort of the language is
  stable, as is \<open>sort_key\<close>; sorting by the negated total is sorting by descending total.
\<close>

definition sort_by_total :: "stats_entry list \<Rightarrow> stats_entry list" where
  "sort_by_total statsData = sort_key (\<lambda>u. - total_count u) statsData"

definition updateTeacherStats :: "env \<Rightarrow> string \<Rightarrow> eventData \<Rightarrow> db \<Rightarrow> (error + unit) \<times> db" where
  "updateTeacherStats e event ed s =
     (if \<not> js_includes event ''.create'' \<and> \<not> js_includes event ''.delete'' then (Inr (), s)
      else
        (case js_or (userName ed) (createdBy ed) of
           None \<Rightarrow> (Inr (), s)
         | Some n \<Rightarrow>
             if n = [] then (Inr (), s)
             else
               (let s1 = s\<lparr>calls := calls s @ [GetDocument STATS_DOCUMENT_ID]\<rparr> in
                case getAndParseJSON (stats_doc s) of
                  Inl err \<Rightarrow> (Inl err, s1)
                | Inr EmptyObject \<Rightarrow> (Inl TypeError, s1)
                | Inr (Parsed statsData) \<Rightarrow>
                    (let sorted_stats = sort_by_total (mutate_stats e event n statsData);
                         s2 = s1\<lparr>calls := calls s1 @ [UpdateDocument STATS_DOCUMENT_ID]\<rparr>
                     in case updateDocument (stats_doc s) sorted_stats of
                          Inl err \<Rightarrow> (Inl err, s2)
                        | Inr sl \<Rightarrow> (Inr (), s2\<lparr>stats_doc := sl\<rparr>)))))"

section \<open>Task 2: links cache\<close>

text \<open>Reading a property of the parsed cache object; \<open>undefined\<close> is \<open>None\<close>.\<close>

definition own_properties :: "cache_obj json \<Rightarrow> cache_obj" where
  "own_properties j = (case j of EmptyObject \<Rightarrow> [] | Parsed obj \<Rightarrow> obj)"

definition or_empty :: "string list option \<Rightarrow> string list" where
  "or_empty v = (case v of None \<Rightarrow> [] | Some xs \<Rightarrow> xs)"

definition updateLinksCache :: "string \<Rightarrow> eventData \<Rightarrow> db \<Rightarrow> (error + unit) \<times> db" where
  "updateLinksCache event ed s =
     (if \<not> js_includes event ''.create'' then (Inr (), s)
      else
        (case createdBy ed of
           None \<Rightarrow> (Inr (), s)
         | Some uploaderName \<Rightarrow>
             if uploaderName = [] then (Inr (), s)
             else
               (let s1 = s\<lparr>calls := calls s @ [GetDocument LINKS_UPLOADERS_CACHE_DOCUMENT_ID]\<rparr> in
                case getAndParseJSON (links_doc s) of
                  Inl err \<Rightarrow> (Inl err, s1)
                | Inr cacheData \<Rightarrow>
                    (let uploaders = or_empty (map_of (own_properties cacheData) ''uploaders'') in
                     if uploaderName \<notin> set uploaders then
                       (let s2 = s1\<lparr>calls := calls s1 @ [UpdateDocument LINKS_UPLOADERS_CACHE_DOCUMENT_ID]\<rparr>
                        in case updateDocument (links_doc s)
                                  [(''uploaders'', sort (uploaders @ [uploaderName]))] of
                             Inl err \<Rightarrow> (Inl err, s2)
                           | Inr sl \<Rightarrow> (Inr (), s2\<lparr>links_doc := sl\<rparr>))
                     else (Inr (), s1)))))"

section \<open>Task 3: uploader cache\<close>

text \<open>
  \<open>cacheData[abbreviation]\<close> on a plain object also finds the properties inherited from
  \<open>Object.prototype\<close>.  Each of them is a function or an object, hence truthy and without an
  \<open>includes\<close> method, so line 127 throws a \<open>TypeError\<close> when the abbreviation is one of these
  names and the cache has no own property of that name.
\<close>

definition object_prototype_properties :: "string list" where
  "object_prototype_properties =
     [''constructor'', ''hasOwnProperty'', ''isPrototypeOf'', ''propertyIsEnumerable'',
      ''toLocaleString'', ''toString'', ''valueOf'', ''__proto__'', ''__defineGetter__'',
      ''__defineSetter__'', ''__lookupGetter__'', ''__lookupSetter__'']"

text \<open>Lines 119 to 131, on the own properties of \<open>cacheData\<close>; the flag is \<open>hasChanged\<close>.\<close>

definition insert_uploader :: "string \<Rightarrow> string \<Rightarrow> cache_obj \<Rightarrow> cache_obj \<times> bool" where
  "insert_uploader n abbr cacheData =
     (let c1 = AList.update ''all'' (or_empty (map_of cacheData ''all'')) cacheData;
          c2 = AList.update abbr (or_empty (map_of c1 abbr)) c1;
          all_names = or_empty (map_of c2 ''all'');
          (c3, hasChanged1) =
             (if n \<notin> set all_names
              then (AList.update ''all'' (sort (all_names @ [n])) c2, True) else (c2, False));
          abbr_names = or_empty (map_of c3 abbr);
          (c4, hasChanged) =
             (if n \<notin> set abbr_names
              then (AList.update abbr (sort (abbr_names @ [n])) c3, True) else (c3, hasChanged1))
      in (c4, hasChanged))"

definition updateUploaderCache :: "env \<Rightarrow> string \<Rightarrow> eventData \<Rightarrow> db \<Rightarrow> (error + unit) \<times> db" where
  "updateUploaderCache e event ed s =
     (if \<not> js_includes event (''collections.'' @ APPWRITE_NOTE_COLLECTION_ID e) then (Inr (), s)
      else if \<not> js_includes event ''.create'' then (Inr (), s)
      else
        (case (userName ed, abbreviation_field ed) of
           (Some n, Some abbr) \<Rightarrow>
             if n = [] \<or> abbr = [] then (Inr (), s)
             else
               (let s1 = s\<lparr>calls := calls s @ [GetDocument UPLOADERS_CACHE_DOCUMENT_ID]\<rparr> in
                case getAndParseJSON (uploaders_doc s) of
                  Inl err \<Rightarrow> (Inl err, s1)
                | Inr parsed \<Rightarrow>
                    (let cacheData = own_properties parsed in
                     if abbr \<in> set object_prototype_properties \<and> map_of cacheData abbr = None
                     then (Inl TypeError, s1)
                     else
                       (case insert_uploader n abbr cacheData of
                          (cacheData', hasChanged) \<Rightarrow>
                            if hasChanged then
                              (let s2 = s1\<lparr>calls := calls s1 @ [UpdateDocument UPLOADERS_CACHE_DOCUMENT_ID]\<rparr>
                               in case updateDocument (uploaders_doc s) cacheData' of
                                    Inl err \<Rightarrow> (Inl err, s2)
                                  | Inr sl \<Rightarrow> (Inr (), s2\<lparr>uploaders_doc := sl\<rparr>))
                            else (Inr (), s1))))
         | _ \<Rightarrow> (Inr (), s)))"

section \<open>The exported handler\<close>

text \<open>
  The response passed to \<open>res.json\<close>: the \<open>success\<close> flag and the HTTP status (200 when none
  is given).  The handler either responds or lets an exception escape.
\<close>

record response =
  success :: bool
  status :: nat

datatype outcome = Responded response "nat list" | Escaped error

text \<open>
  \<open>Promise.allSettled\<close> over the three tasks: every task runs, and each result is kept
  whether it fulfilled or rejected.  The tasks work on three different documents, so they are
  run one after the other on the store.
\<close>

definition allSettled :: "env \<Rightarrow> string \<Rightarrow> eventData \<Rightarrow> db \<Rightarrow> (error + unit) list \<times> db" where
  "allSettled e event ed s =
     (case updateTeacherStats e event ed s of
        (r1, s1) \<Rightarrow>
          (case updateLinksCache event ed s1 of
             (r2, s2) \<Rightarrow>
               (case updateUploaderCache e event ed s2 of
                  (r3, s3) \<Rightarrow> ([r1, r2, r3], s3))))"

text \<open>Lines 168 to 172: the numbers of the rejected tasks, as passed to \<open>error\<close>.\<close>

fun rejected_tasks :: "nat \<Rightarrow> (error + unit) list \<Rightarrow> nat list" where
  "rejected_tasks i [] = []"
| "rejected_tasks i (Inl err # rs) = (i + 1) # rejected_tasks (i + 1) rs"
| "rejected_tasks i (Inr v # rs) = rejected_tasks (i + 1) rs"

text \<open>
  The body of the \<open>try\<close> block, lines 158 to 174.  Nothing in it throws: the tasks are async
  functions, \<open>Promise.allSettled\<close> never rejects, and logging and \<open>res.json\<close> are taken not
  to throw.
\<close>

definition try_block :: "env \<Rightarrow> string \<Rightarrow> eventData \<Rightarrow> db \<Rightarrow> (error + response \<times> nat list) \<times> db" where
  "try_block e event ed s =
     (case allSettled e event ed s of
        (results, s') \<Rightarrow>
          (Inr (\<lparr>success = True, status = 200\<rparr>, rejected_tasks 0 results), s'))"

text \<open>
  The handler.  \<open>client\<close> is the outcome of lines 147 to 151, the construction of the store
  client, which is outside the \<open>try\<close> block; \<open>catch\<close> turns an exception of the block into the
  failure response with status 500.
\<close>

definition handler :: "env \<Rightarrow> error + unit \<Rightarrow> string \<Rightarrow> eventData \<Rightarrow> db \<Rightarrow> outcome \<times> db" where
  "handler e client event ed s =
     (case client of
        Inl exn \<Rightarrow> (Escaped exn, s)
      | Inr _ \<Rightarrow>
          (case try_block e event ed s of
             (Inr (r, logged), s') \<Rightarrow> (Responded r logged, s')
           | (Inl exn, s') \<Rightarrow> (Responded \<lparr>success = False, status = 500\<rparr> [], s')))"


section \<open>Event names\<close>

text \<open>
  The event names the function is triggered with (README, Event Triggers):
  \<open>databases.<databaseId>.collections.<collectionId>.documents.<documentId>.<operation>\<close>.
\<close>

datatype operation = Create | Update | Delete

fun operation_name :: "operation \<Rightarrow> string" where
  "operation_name Create = ''create''"
| "operation_name Update = ''update''"
| "operation_name Delete = ''delete''"

definition event_name :: "string \<Rightarrow> string \<Rightarrow> string \<Rightarrow> operation \<Rightarrow> string" where
  "event_name databaseId collectionId documentId operation =
     ''databases.'' @ databaseId @ ''.collections.'' @ collectionId @
     ''.documents.'' @ documentId @ ''.'' @ operation_name operation"

text \<open>
  The event name without a document segment, the form the data model of the specification
  and the request of the README (Local Development) give:
  \<open>databases.<databaseId>.collections.<collectionId>.documents.<operation>\<close>.
\<close>

definition short_event_name :: "string \<Rightarrow> string \<Rightarrow> operation \<Rightarrow> string" where
  "short_event_name databaseId collectionId operation =
     ''databases.'' @ databaseId @ ''.collections.'' @ collectionId @
     ''.documents.'' @ operation_name operation"

section \<open>Observations on the store, and example inputs\<close>

text \<open>The store writes among the calls made so far.\<close>

fun is_write :: "call \<Rightarrow> bool" where
  "is_write (UpdateDocument d) = True"
| "is_write (GetDocument d) = False"

definition writes :: "db \<Rightarrow> call list" where
  "writes s = filter is_write (calls s)"

text \<open>Every counter of every entry of the stats document is at least zero.\<close>

definition nonneg_entry :: "stats_entry \<Rightarrow> bool" where
  "nonneg_entry u =
     (0 \<le> notes_count u \<and> 0 \<le> forms u \<and> 0 \<le> youtube u \<and> 0 \<le> total_count u)"

definition nonneg_stats :: "db \<Rightarrow> bool" where
  "nonneg_stats s =
     (case stats_doc s of
        NoDocument \<Rightarrow> True
      | Document None \<Rightarrow> True
      | Document (Some statsData) \<Rightarrow> list_all nonneg_entry statsData)"

text \<open>A configuration, and a store whose three documents exist with an empty payload.\<close>

definition example_env :: env where
  "example_env =
     \<lparr>APPWRITE_NOTE_COLLECTION_ID = ''notes'', APPWRITE_FORM_COLLECTION_ID = ''forms'',
      APPWRITE_YOUTUBE_COLLECTION_ID = ''youtube''\<rparr>"

definition fresh_store :: db where
  "fresh_store =
     \<lparr>stats_doc = Document None, links_doc = Document None,
      uploaders_doc = Document None, calls = []\<rparr>"

section \<open>Sequences of events\<close>

text \<open>
  A change of a document as the trigger reports it: the identifiers that make up the event
  name, the operation, and the body sent with it.  Without a document identifier the event
  name is the short one.
\<close>

record document_event =
  ev_database :: string
  ev_collection :: string
  ev_document :: "string option"
  ev_operation :: operation
  ev_body :: eventData

definition header :: "document_event \<Rightarrow> string" where
  "header c =
     (case ev_document c of
        None \<Rightarrow> short_event_name (ev_database c) (ev_collection c) (ev_operation c)
      | Some documentId \<Rightarrow>
          event_name (ev_database c) (ev_collection c) documentId (ev_operation c))"

definition delivery :: "document_event \<Rightarrow> string \<times> eventData" where
  "delivery c = (header c, ev_body c)"

text \<open>
  One invocation after the other of the teacher stats task, each on the store the previous
  one left; a rejected invocation leaves its store to the next.
\<close>

fun deliver_stats :: "env \<Rightarrow> (string \<times> eventData) list \<Rightarrow> db \<Rightarrow> db" where
  "deliver_stats e [] s = s"
| "deliver_stats e ((event, ed) # ds) s =
     deliver_stats e ds (snd (updateTeacherStats e event ed s))"

text \<open>Creates minus deletes, over all events and over those of one collection.\<close>

definition occurrences :: "operation \<Rightarrow> document_event list \<Rightarrow> int" where
  "occurrences operation cs = int (length (filter (\<lambda>c. ev_operation c = operation) cs))"

definition net :: "document_event list \<Rightarrow> int" where
  "net cs = occurrences Create cs - occurrences Delete cs"

definition net_on :: "string \<Rightarrow> document_event list \<Rightarrow> int" where
  "net_on collectionId cs = net (filter (\<lambda>c. ev_collection c = collectionId) cs)"

definition delta :: "document_event \<Rightarrow> int" where
  "delta c = (if ev_operation c = Create then 1 else - 1)"

text \<open>
  The count that a sequence of increments leaves when it starts at zero and is clamped at
  zero after every increment; the increments of all events, and of those of one collection.
\<close>

definition running_count :: "int list \<Rightarrow> int" where
  "running_count ds = fold (\<lambda>d a. max 0 (a + d)) ds 0"

definition deltas :: "document_event list \<Rightarrow> int list" where
  "deltas cs = map delta cs"

definition deltas_on :: "string \<Rightarrow> document_event list \<Rightarrow> int list" where
  "deltas_on collectionId cs = deltas (filter (\<lambda>c. ev_collection c = collectionId) cs)"

definition running_entry :: "env \<Rightarrow> string \<Rightarrow> document_event list \<Rightarrow> stats_entry" where
  "running_entry e n cs =
     \<lparr>name = n,
      notes_count = running_count (deltas_on (APPWRITE_NOTE_COLLECTION_ID e) cs),
      forms = running_count (deltas_on (APPWRITE_FORM_COLLECTION_ID e) cs),
      youtube = running_count (deltas_on (APPWRITE_YOUTUBE_COLLECTION_ID e) cs),
      total_count = running_count (deltas cs)\<rparr>"

definition expected_entry :: "env \<Rightarrow> string \<Rightarrow> document_event list \<Rightarrow> stats_entry" where
  "expected_entry e n cs =
     \<lparr>name = n, notes_count = net_on (APPWRITE_NOTE_COLLECTION_ID e) cs,
      forms = net_on (APPWRITE_FORM_COLLECTION_ID e) cs,
      youtube = net_on (APPWRITE_YOUTUBE_COLLECTION_ID e) cs, total_count = net cs\<rparr>"

text \<open>The entry of a user in the stats document, as \<open>statsData.find\<close> locates it.\<close>

definition user_entry :: "string \<Rightarrow> db \<Rightarrow> stats_entry option" where
  "user_entry n s =
     (case stats_doc s of
        NoDocument \<Rightarrow> None
      | Document None \<Rightarrow> None
      | Document (Some statsData) \<Rightarrow> find (\<lambda>u. name u = n) statsData)"

text \<open>
  An identifier without a dot that does not start with \<open>create\<close>: the event name then splits
  into its seven segments, and only the operation can make it contain \<open>.create\<close>.
\<close>

definition plain_id :: "string \<Rightarrow> bool" where
  "plain_id x = (CHR ''.'' \<notin> set x \<and> \<not> prefix ''create'' x)"

text \<open>
  A create or delete event attributed to \<open>n\<close> whose identifiers are plain, and such an event
  on one of the three tracked collections.
\<close>

definition attributed_event :: "string \<Rightarrow> document_event \<Rightarrow> bool" where
  "attributed_event n c =
     (ev_operation c \<in> {Create, Delete} \<and>
      js_or (userName (ev_body c)) (createdBy (ev_body c)) = Some n \<and>
      plain_id (ev_database c) \<and> plain_id (ev_collection c) \<and>
      (case ev_document c of None \<Rightarrow> True | Some documentId \<Rightarrow> plain_id documentId))"

definition tracked_event :: "env \<Rightarrow> string \<Rightarrow> document_event \<Rightarrow> bool" where
  "tracked_event e n c =
     (ev_collection c \<in> {APPWRITE_NOTE_COLLECTION_ID e, APPWRITE_FORM_COLLECTION_ID e,
                            APPWRITE_YOUTUBE_COLLECTION_ID e} \<and>
      attributed_event n c)"

text \<open>
  No delete arrives while the counter of its collection is zero: after every prefix of the
  sequence, each collection has seen at least as many creates as deletes.
\<close>

definition never_below_zero :: "env \<Rightarrow> document_event list \<Rightarrow> bool" where
  "never_below_zero e cs =
     list_all (\<lambda>p. 0 \<le> net_on (APPWRITE_NOTE_COLLECTION_ID e) p \<and>
                    0 \<le> net_on (APPWRITE_FORM_COLLECTION_ID e) p \<and>
                    0 \<le> net_on (APPWRITE_YOUTUBE_COLLECTION_ID e) p) (prefixes cs)"

text \<open>Example inputs: a store with the stats payload \<open>[]\<close>, and events of Alice.\<close>

definition empty_stats_store :: db where
  "empty_stats_store = fresh_store\<lparr>stats_doc := Document (Some [])\<rparr>"

definition alice_body :: eventData where
  "alice_body = \<lparr>userName = Some ''Alice'', createdBy = None, abbreviation_field = None\<rparr>"

definition alice_event :: "string \<Rightarrow> operation \<Rightarrow> document_event" where
  "alice_event collectionId operation =
     \<lparr>ev_database = ''main'', ev_collection = collectionId, ev_document = Some ''doc1'',
      ev_operation = operation, ev_body = alice_body\<rparr>"

definition alice_short_event :: "string \<Rightarrow> operation \<Rightarrow> document_event" where
  "alice_short_event collectionId operation =
     \<lparr>ev_database = ''main'', ev_collection = collectionId, ev_document = None,
      ev_operation = operation, ev_body = alice_body\<rparr>"

definition delete_then_create :: "document_event list" where
  "delete_then_create = [alice_event ''notes'' Delete, alice_event ''notes'' Create]"

definition deletes_at_zero :: "document_event list" where
  "deletes_at_zero =
     [alice_event ''notes'' Delete, alice_event ''notes'' Create,
      alice_short_event ''forms'' Create, alice_short_event ''youtube'' Delete]"

definition ranked_store :: db where
  "ranked_store = fresh_store\<lparr>stats_doc := Document (Some
     [\<lparr>name = ''Alice'', notes_count = 1, forms = 0, youtube = 0, total_count = 1\<rparr>,
      \<lparr>name = ''Bob'', notes_count = 1, forms = 0, youtube = 0, total_count = 1\<rparr>,
      \<lparr>name = ''Carol'', notes_count = 0, forms = 2, youtube = 0, total_count = 2\<rparr>])\<rparr>"

definition ranked_after :: db where
  "ranked_after = fresh_store
     \<lparr>stats_doc := Document (Some
        [\<lparr>name = ''Bob'', notes_count = 2, forms = 0, youtube = 0, total_count = 2\<rparr>,
         \<lparr>name = ''Carol'', notes_count = 0, forms = 2, youtube = 0, total_count = 2\<rparr>,
         \<lparr>name = ''Alice'', notes_count = 1, forms = 0, youtube = 0, total_count = 1\<rparr>]),
      calls := [GetDocument STATS_DOCUMENT_ID, UpdateDocument STATS_DOCUMENT_ID]\<rparr>"

definition notes_created :: string where
  "notes_created = ''databases.main.collections.notes.documents.doc1.create''"

definition bob_body :: eventData where
  "bob_body = \<lparr>userName = Some ''Bob'', createdBy = None, abbreviation_field = None\<rparr>"

definition dan_body :: eventData where
  "dan_body = \<lparr>userName = Some ''Dan'', createdBy = Some ''Alice'', abbreviation_field = Some ''PHY''\<rparr>"

definition links_after :: db where
  "links_after = fresh_store
     \<lparr>links_doc := Document (Some [(''uploaders'', [''Alice''])]),
      calls := [GetDocument LINKS_UPLOADERS_CACHE_DOCUMENT_ID,
                UpdateDocument LINKS_UPLOADERS_CACHE_DOCUMENT_ID]\<rparr>"

definition uploaders_after :: db where
  "uploaders_after = fresh_store
     \<lparr>uploaders_doc := Document (Some [(''all'', [''Dan'']), (''PHY'', [''Dan''])]),
      calls := [GetDocument UPLOADERS_CACHE_DOCUMENT_ID,
                UpdateDocument UPLOADERS_CACHE_DOCUMENT_ID]\<rparr>"

section \<open>Facts about event names\<close>

lemma js_includes_sublist: "js_includes s p = sublist p s"
  by (induction s) (simp_all add: sublist_Cons_right)

lemma includes_create:
  "js_includes (event_name databaseId collectionId documentId Create) ''.create''"
proof -
  have "event_name databaseId collectionId documentId Create =
        (''databases.'' @ databaseId @ ''.collections.'' @ collectionId @
         ''.documents.'' @ documentId) @ ''.create'' @ []"
    by (simp add: event_name_def)
  then show ?thesis
    unfolding js_includes_sublist by (metis sublist_appendI)
qed

lemma includes_delete:
  "js_includes (event_name databaseId collectionId documentId Delete) ''.delete''"
proof -
  have "event_name databaseId collectionId documentId Delete =
        (''databases.'' @ databaseId @ ''.collections.'' @ collectionId @
         ''.documents.'' @ documentId) @ ''.delete'' @ []"
    by (simp add: event_name_def)
  then show ?thesis
    unfolding js_includes_sublist by (metis sublist_appendI)
qed

lemma includes_collection:
  "js_includes (event_name databaseId collectionId documentId operation)
     (''collections.'' @ collectionId)"
proof -
  have "event_name databaseId collectionId documentId operation =
        (''databases.'' @ databaseId @ ''.'') @ (''collections.'' @ collectionId) @
        (''.documents.'' @ documentId @ ''.'' @ operation_name operation)"
    by (simp add: event_name_def)
  then show ?thesis
    unfolding js_includes_sublist by (metis sublist_appendI)
qed

lemma short_includes_create:
  "js_includes (short_event_name databaseId collectionId Create) ''.create''"
proof -
  have "short_event_name databaseId collectionId Create =
        (''databases.'' @ databaseId @ ''.collections.'' @ collectionId @ ''.documents'') @
        ''.create'' @ []"
    by (simp add: short_event_name_def)
  then show ?thesis
    unfolding js_includes_sublist by (metis sublist_appendI)
qed

lemma short_includes_delete:
  "js_includes (short_event_name databaseId collectionId Delete) ''.delete''"
proof -
  have "short_event_name databaseId collectionId Delete =
        (''databases.'' @ databaseId @ ''.collections.'' @ collectionId @ ''.documents'') @
        ''.delete'' @ []"
    by (simp add: short_event_name_def)
  then show ?thesis
    unfolding js_includes_sublist by (metis sublist_appendI)
qed

lemma js_split_nonempty: "js_split d s \<noteq> []"
  by (induction s) (auto split: list.splits)

lemma js_split_no_delimiter: "d \<notin> set a \<Longrightarrow> js_split d a = [a]"
  by (induction a) auto

lemma js_split_segment: "d \<notin> set a \<Longrightarrow> js_split d (a @ d # r) = a # js_split d r"
  by (induction a) auto

text \<open>A word without the delimiter starts a string exactly when it starts its first segment.\<close>

lemma prefix_first_segment:
  "d \<notin> set w \<Longrightarrow> prefix w s = prefix w (hd (js_split d s))"
proof (induction s arbitrary: w)
  case Nil
  then show ?case by simp
next
  case (Cons c cs)
  show ?case
  proof (cases w)
    case Nil
    then show ?thesis by simp
  next
    case (Cons x w')
    with Cons.prems have "x \<noteq> d" "d \<notin> set w'" by auto
    with Cons.IH[of w'] Cons show ?thesis
      using js_split_nonempty[of d cs] by (auto split: list.splits)
  qed
qed

text \<open>
  The delimiter followed by such a word occurs in a string exactly when the word starts one of
  the segments after the first.
\<close>

lemma includes_dot_word:
  "d \<notin> set w \<Longrightarrow>
   js_includes s (d # w) = (\<exists>seg \<in> set (tl (js_split d s)). prefix w seg)"
proof (induction s)
  case Nil
  then show ?case by simp
next
  case (Cons c cs)
  obtain h t where ht: "js_split d cs = h # t"
    using js_split_nonempty[of d cs] by (cases "js_split d cs") auto
  show ?case
  proof (cases "c = d")
    case True
    with Cons ht prefix_first_segment[of d w cs] show ?thesis by auto
  next
    case False
    with Cons ht show ?thesis by auto
  qed
qed

lemma operation_name_plain: "CHR ''.'' \<notin> set (operation_name operation)"
  by (cases operation) auto

lemma split_event_name:
  assumes "CHR ''.'' \<notin> set databaseId" and "CHR ''.'' \<notin> set collectionId"
    and "CHR ''.'' \<notin> set documentId"
  shows "js_split CHR ''.'' (event_name databaseId collectionId documentId operation) =
         [''databases'', databaseId, ''collections'', collectionId, ''documents'', documentId,
          operation_name operation]"
proof -
  have "event_name databaseId collectionId documentId operation =
        ''databases'' @ CHR ''.'' # databaseId @ CHR ''.'' # ''collections'' @ CHR ''.'' #
        collectionId @ CHR ''.'' # ''documents'' @ CHR ''.'' # documentId @ CHR ''.'' #
        operation_name operation"
    by (simp add: event_name_def)
  then show ?thesis
    using assms operation_name_plain[of operation]
    by (simp only: js_split_segment js_split_no_delimiter)
       (simp add: js_split_segment js_split_no_delimiter)
qed

lemma split_short_event_name:
  assumes "CHR ''.'' \<notin> set databaseId" and "CHR ''.'' \<notin> set collectionId"
  shows "js_split CHR ''.'' (short_event_name databaseId collectionId operation) =
         [''databases'', databaseId, ''collections'', collectionId, ''documents'',
          operation_name operation]"
proof -
  have "short_event_name databaseId collectionId operation =
        ''databases'' @ CHR ''.'' # databaseId @ CHR ''.'' # ''collections'' @ CHR ''.'' #
        collectionId @ CHR ''.'' # ''documents'' @ CHR ''.'' # operation_name operation"
    by (simp add: short_event_name_def)
  then show ?thesis
    using assms operation_name_plain[of operation]
    by (simp only: js_split_segment js_split_no_delimiter)
       (simp add: js_split_segment js_split_no_delimiter)
qed

lemma short_increment_create:
  "increment (short_event_name databaseId collectionId Create) = 1"
  by (simp add: increment_def short_includes_create)

lemma short_increment_delete:
  assumes "plain_id databaseId" and "plain_id collectionId"
  shows "increment (short_event_name databaseId collectionId Delete) = - 1"
proof -
  have "\<not> js_includes (short_event_name databaseId collectionId Delete)
            (CHR ''.'' # ''create'')"
    using assms
    by (subst includes_dot_word) (simp_all add: split_short_event_name plain_id_def)
  then show ?thesis
    by (simp add: increment_def)
qed

lemma short_collection_segment:
  assumes "plain_id databaseId" and "plain_id collectionId"
  shows "js_index (js_split CHR ''.'' (short_event_name databaseId collectionId operation)) 3
         = Some collectionId"
  using assms by (simp add: split_short_event_name plain_id_def numeral_3_eq_3)

lemma increment_create: "increment (event_name databaseId collectionId documentId Create) = 1"
  by (simp add: increment_def includes_create)

lemma increment_delete:
  assumes "plain_id databaseId" and "plain_id collectionId" and "plain_id documentId"
  shows "increment (event_name databaseId collectionId documentId Delete) = - 1"
proof -
  have "\<not> js_includes (event_name databaseId collectionId documentId Delete)
            (CHR ''.'' # ''create'')"
    using assms
    by (subst includes_dot_word) (simp_all add: split_event_name plain_id_def)
  then show ?thesis
    by (simp add: increment_def)
qed

lemma collection_segment:
  assumes "plain_id databaseId" and "plain_id collectionId" and "plain_id documentId"
  shows "js_index (js_split CHR ''.'' (event_name databaseId collectionId documentId operation)) 3
         = Some collectionId"
  using assms by (simp add: split_event_name plain_id_def numeral_3_eq_3)

section \<open>Reading an empty payload\<close>

text \<open>
  Claim C2.  The claim says that a read of a document whose payload is empty or absent yields
  the zero value of its type, \<open>[]\<close> for the stats document, and that the teacher stats task
  then goes on as on an empty list.  The code parses the default text \<open>'{}'\<close> for every
  document: the read of the stats document yields the empty object, \<open>statsData.find\<close> is not
  a function, and the task rejects with a \<open>TypeError\<close> after the read, without a write.  On
  the payload \<open>[]\<close> the same event writes the entry of Alice.  For the two cache documents
  the empty object is the empty mapping.
\<close>

theorem empty_stats_payload_rejects:
  "getAndParseJSON (stats_doc fresh_store) = Inr EmptyObject \<and>
   updateTeacherStats example_env ''databases.main.collections.notes.documents.doc1.create''
     \<lparr>userName = Some ''Alice'', createdBy = None, abbreviation_field = None\<rparr> fresh_store
   = (Inl TypeError, fresh_store\<lparr>calls := [GetDocument STATS_DOCUMENT_ID]\<rparr>) \<and>
   updateTeacherStats example_env ''databases.main.collections.notes.documents.doc1.create''
     \<lparr>userName = Some ''Alice'', createdBy = None, abbreviation_field = None\<rparr>
     (fresh_store\<lparr>stats_doc := Document (Some [])\<rparr>)
   = (Inr (), fresh_store
        \<lparr>stats_doc := Document (Some
           [\<lparr>name = ''Alice'', notes_count = 1, forms = 0, youtube = 0, total_count = 1\<rparr>]),
         calls := [GetDocument STATS_DOCUMENT_ID, UpdateDocument STATS_DOCUMENT_ID]\<rparr>) \<and>
   own_properties EmptyObject = []"
  by code_simp

section \<open>The handler\<close>

text \<open>
  Claim C3.  The claim says that an exception of the dispatch setup, the construction of the
  store client included, is caught and reported as a failure response.  The client is built
  before the \<open>try\<close> block is entered, so its exception leaves the handler: no response is
  made and no task runs.
\<close>

theorem client_failure_escapes:
  "handler e (Inl exn) event ed s = (Escaped exn, s)"
  by (simp add: handler_def)

text \<open>
  Claim C6.  Once the client is built, the handler answers with the success response and
  status 200 whatever the three tasks returned; the failed tasks only show in the log.
\<close>

theorem handler_reports_success:
  "fst (handler e (Inr ()) event ed s) =
     Responded \<lparr>success = True, status = 200\<rparr> (rejected_tasks 0 (fst (allSettled e event ed s)))"
  by (simp add: handler_def try_block_def split: prod.splits)

text \<open>
  An invocation on the store with the empty stats payload: the first task rejects, the other
  two run, and the response is the success response still.
\<close>

lemma success_with_rejected_task:
  "fst (handler example_env (Inr ()) notes_created dan_body fresh_store) =
     Responded \<lparr>success = True, status = 200\<rparr> [1]"
  by code_simp

section \<open>The collection filter of the uploader cache\<close>

text \<open>
  Claim C4.  The claim says that a create event on a collection other than the notes
  collection leaves the uploader cache alone.  The code tests whether the event name contains
  \<open>collections.\<close> followed by the notes identifier, which also holds for a collection whose
  identifier starts with the notes identifier: with the notes collection \<open>notes\<close>, a create
  event on the collection \<open>notes2\<close> reads the cache, inserts the name and writes it back.
\<close>

theorem uploader_cache_accepts_longer_collection_id:
  "''notes2'' \<noteq> APPWRITE_NOTE_COLLECTION_ID example_env \<and>
   updateUploaderCache example_env ''databases.main.collections.notes2.documents.doc1.create''
     \<lparr>userName = Some ''Dan'', createdBy = None, abbreviation_field = Some ''PHY''\<rparr> fresh_store
   = (Inr (), fresh_store
        \<lparr>uploaders_doc := Document (Some [(''all'', [''Dan'']), (''PHY'', [''Dan''])]),
         calls := [GetDocument UPLOADERS_CACHE_DOCUMENT_ID,
                   UpdateDocument UPLOADERS_CACHE_DOCUMENT_ID]\<rparr>)"
  by code_simp

section \<open>Events on a collection that is not tracked\<close>

text \<open>
  Claim C5.  The claim says that a delete event on a collection that is none of the three
  tracked ones adds \<open>-1\<close> to the total of the attributed entry.  The code takes the increment
  to be \<open>1\<close> whenever the event name contains \<open>.create\<close>, which a delete event does when one
  of its identifiers starts with \<open>create\<close>: the deletion of a document of the collection
  \<open>created_links\<close> raises the total of Bob from 2 to 3.  The category counters stay as they
  are and the document is written back, as the claim says.
\<close>

theorem delete_event_counted_as_create:
  "updateTeacherStats example_env
     ''databases.main.collections.created_links.documents.doc1.delete''
     \<lparr>userName = Some ''Bob'', createdBy = None, abbreviation_field = None\<rparr>
     (fresh_store\<lparr>stats_doc := Document (Some
        [\<lparr>name = ''Bob'', notes_count = 1, forms = 0, youtube = 1, total_count = 2\<rparr>])\<rparr>)
   = (Inr (), fresh_store
        \<lparr>stats_doc := Document (Some
           [\<lparr>name = ''Bob'', notes_count = 1, forms = 0, youtube = 1, total_count = 3\<rparr>]),
         calls := [GetDocument STATS_DOCUMENT_ID, UpdateDocument STATS_DOCUMENT_ID]\<rparr>)"
  by code_simp

section \<open>What a run of the teacher stats task leaves\<close>

text \<open>
  The task leaves the store as it found it (a skipped event), or with the read recorded (a
  rejected read, the empty object, or a rejected write cannot occur once the read succeeded),
  or it wrote the sorted, mutated array.
\<close>

lemma updateTeacherStats_cases:
  "snd (updateTeacherStats e event ed s) = s \<or>
   snd (updateTeacherStats e event ed s) =
     s\<lparr>calls := calls s @ [GetDocument STATS_DOCUMENT_ID]\<rparr> \<or>
   (\<exists>statsData n. stats_doc s = Document (Some statsData) \<and>
      js_or (userName ed) (createdBy ed) = Some n \<and>
      updateTeacherStats e event ed s =
        (Inr (), s\<lparr>stats_doc := Document (Some (sort_by_total (mutate_stats e event n statsData))),
                   calls := calls s @ [GetDocument STATS_DOCUMENT_ID,
                                       UpdateDocument STATS_DOCUMENT_ID]\<rparr>))"
  by (simp add: updateTeacherStats_def getAndParseJSON_def getDocument_def updateDocument_def
      split: option.split slot.split)

lemma writes_append_read: "writes (s\<lparr>calls := calls s @ [GetDocument d]\<rparr>) = writes s"
  by (simp add: writes_def)

lemma nonneg_clamp_counts: "nonneg_entry (clamp_counts u)"
  by (simp add: nonneg_entry_def clamp_counts_def)

lemma list_all_with_userStats:
  "list_all P statsData \<Longrightarrow> (\<And>u. P (f u)) \<Longrightarrow> list_all P (with_userStats n f statsData)"
  by (induction statsData) simp_all

lemma nonneg_written:
  assumes "list_all nonneg_entry statsData"
  shows "list_all nonneg_entry (sort_by_total (mutate_stats e event n statsData))"
proof -
  from assms have "list_all nonneg_entry (mutate_stats e event n statsData)"
    unfolding mutate_stats_def by (rule list_all_with_userStats) (rule nonneg_clamp_counts)
  then show ?thesis
    by (simp add: sort_by_total_def list_all_iff)
qed

lemma nonneg_step: "nonneg_stats s \<Longrightarrow> nonneg_stats (snd (updateTeacherStats e event ed s))"
  using updateTeacherStats_cases[of e event ed s]
  by (auto simp: nonneg_stats_def nonneg_written split: slot.splits option.splits)

lemma nonneg_deliveries: "nonneg_stats s \<Longrightarrow> nonneg_stats (deliver_stats e ds s)"
proof (induction ds arbitrary: s)
  case Nil
  then show ?case by simp
next
  case (Cons d ds)
  obtain event ed where d: "d = (event, ed)" by (cases d)
  from Cons.prems have "nonneg_stats (snd (updateTeacherStats e event ed s))"
    by (rule nonneg_step)
  then show ?case
    unfolding d by (simp add: Cons.IH)
qed

text \<open>
  Claim C7.  If every counter of every entry of the stats document is at least zero, it is so
  after the task ran on any event, and so after any sequence of events, whatever their order.
\<close>

theorem counters_stay_nonnegative:
  assumes "nonneg_stats s"
  shows "nonneg_stats (snd (updateTeacherStats e event ed s)) \<and>
         nonneg_stats (deliver_stats e ds s)"
  using assms by (simp add: nonneg_step nonneg_deliveries)

theorem counters_stay_nonnegative_witness:
  "nonneg_stats empty_stats_store \<and>
   nonneg_stats (snd (updateTeacherStats example_env (header (alice_event ''notes'' Delete))
                        alice_body empty_stats_store)) \<and>
   nonneg_stats (deliver_stats example_env (map delivery delete_then_create) empty_stats_store)"
proof -
  have h: "nonneg_stats empty_stats_store" by code_simp
  show ?thesis
    using h counters_stay_nonnegative[OF h, of example_env
        "header (alice_event ''notes'' Delete)" alice_body "map delivery delete_then_create"]
    by simp
qed

lemma sort_by_total_descending:
  "sorted_wrt (\<lambda>a b. total_count b \<le> total_count a) (sort_by_total statsData)"
proof -
  have "sorted (map (\<lambda>u. - total_count u) (sort_by_total statsData))"
    unfolding sort_by_total_def by (rule sorted_sort_key)
  then show ?thesis
    by (simp add: sorted_map)
qed

lemma sort_by_total_stable:
  "filter (\<lambda>u. total_count u = k) (sort_by_total statsData) =
   filter (\<lambda>u. total_count u = k) statsData"
  using sort_key_stable[of "\<lambda>u. - total_count u" "- k" statsData]
  by (simp add: sort_by_total_def)

text \<open>
  Claim C8.  When the task succeeded and wrote, the array it wrote is the mutated array sorted:
  its totals descend, and for every total the entries with that total are in the order they had
  before the sort.
\<close>

theorem written_stats_sorted_stable:
  assumes "updateTeacherStats e event ed s = (Inr (), s')" and "writes s' \<noteq> writes s"
  shows "\<exists>statsData n.
           stats_doc s = Document (Some statsData) \<and>
           js_or (userName ed) (createdBy ed) = Some n \<and>
           stats_doc s' = Document (Some (sort_by_total (mutate_stats e event n statsData))) \<and>
           sorted_wrt (\<lambda>a b. total_count b \<le> total_count a)
             (sort_by_total (mutate_stats e event n statsData)) \<and>
           (\<forall>k. filter (\<lambda>u. total_count u = k) (sort_by_total (mutate_stats e event n statsData)) =
                filter (\<lambda>u. total_count u = k) (mutate_stats e event n statsData))"
proof -
  from updateTeacherStats_cases[of e event ed s] assms
  obtain statsData n where w: "stats_doc s = Document (Some statsData)"
      "js_or (userName ed) (createdBy ed) = Some n"
      "updateTeacherStats e event ed s =
        (Inr (), s\<lparr>stats_doc := Document (Some (sort_by_total (mutate_stats e event n statsData))),
                   calls := calls s @ [GetDocument STATS_DOCUMENT_ID,
                                       UpdateDocument STATS_DOCUMENT_ID]\<rparr>)"
    by (auto simp: writes_append_read)
  from w(3) assms(1)
  have "stats_doc s' = Document (Some (sort_by_total (mutate_stats e event n statsData)))"
    by auto
  with w(1,2) show ?thesis
    by (auto simp: sort_by_total_descending sort_by_total_stable)
qed

theorem written_stats_sorted_stable_witness:
  "updateTeacherStats example_env notes_created bob_body ranked_store = (Inr (), ranked_after) \<and>
   writes ranked_after \<noteq> writes ranked_store \<and>
   (\<exists>statsData n.
      stats_doc ranked_store = Document (Some statsData) \<and>
      js_or (userName bob_body) (createdBy bob_body) = Some n \<and>
      stats_doc ranked_after =
        Document (Some (sort_by_total (mutate_stats example_env notes_created n statsData))) \<and>
      sorted_wrt (\<lambda>a b. total_count b \<le> total_count a)
        (sort_by_total (mutate_stats example_env notes_created n statsData)) \<and>
      (\<forall>k. filter (\<lambda>u. total_count u = k)
              (sort_by_total (mutate_stats example_env notes_created n statsData)) =
           filter (\<lambda>u. total_count u = k) (mutate_stats example_env notes_created n statsData)))"
proof -
  have h1: "updateTeacherStats example_env notes_created bob_body ranked_store
            = (Inr (), ranked_after)"
    by code_simp
  have h2: "writes ranked_after \<noteq> writes ranked_store"
    by code_simp
  from written_stats_sorted_stable[OF h1 h2] h1 h2 show ?thesis
    by (intro conjI)
qed

section \<open>Delivering a create event twice to the caches\<close>

lemma links_redelivery:
  assumes "updateLinksCache event ed s = (Inr (), s')"
  shows "fst (updateLinksCache event ed s') = Inr () \<and>
         writes (snd (updateLinksCache event ed s')) = writes s' \<and>
         links_doc (snd (updateLinksCache event ed s')) = links_doc s'"
  using assms
  by (auto simp: updateLinksCache_def getAndParseJSON_def getDocument_def updateDocument_def
      own_properties_def or_empty_def writes_def Let_def
      split: if_splits option.splits slot.splits)

text \<open>After the insertion the name is in both arrays, and inserting it again changes nothing.\<close>

lemma insert_uploader_present:
  assumes "insert_uploader n abbr cacheData = (cacheData', hasChanged)"
  shows "(\<exists>a. map_of cacheData' ''all'' = Some a \<and> n \<in> set a) \<and>
         (\<exists>b. map_of cacheData' abbr = Some b \<and> n \<in> set b)"
  using assms
  by (auto simp: insert_uploader_def Let_def update_conv' or_empty_def
      split: if_splits option.splits)

lemma insert_uploader_fixed:
  assumes "map_of cacheData ''all'' = Some a" and "n \<in> set a"
    and "map_of cacheData abbr = Some b" and "n \<in> set b"
  shows "insert_uploader n abbr cacheData = (cacheData, False)"
  using assms
  by (simp add: insert_uploader_def Let_def update_conv' or_empty_def update_triv)

lemma uploader_redelivery:
  assumes "updateUploaderCache e event ed s = (Inr (), s')"
  shows "fst (updateUploaderCache e event ed s') = Inr () \<and>
         writes (snd (updateUploaderCache e event ed s')) = writes s' \<and>
         uploaders_doc (snd (updateUploaderCache e event ed s')) = uploaders_doc s'"
proof (cases "js_includes event (''collections.'' @ APPWRITE_NOTE_COLLECTION_ID e) \<and>
    js_includes event ''.create'' \<and>
    (\<exists>n abbr. userName ed = Some n \<and> abbreviation_field ed = Some abbr \<and> n \<noteq> [] \<and> abbr \<noteq> [])")
  case False
  then have "\<And>t. updateUploaderCache e event ed t = (Inr (), t)"
    by (auto simp: updateUploaderCache_def split: option.splits)
  with assms show ?thesis by simp
next
  case True
  then obtain n abbr where
    k: "js_includes event (''collections.'' @ APPWRITE_NOTE_COLLECTION_ID e)"
      "js_includes event ''.create''" "userName ed = Some n" "abbreviation_field ed = Some abbr"
      "n \<noteq> []" "abbr \<noteq> []"
    by auto
  have step: "\<And>t d. uploaders_doc t = Document d \<Longrightarrow>
      updateUploaderCache e event ed t =
        (let t1 = t\<lparr>calls := calls t @ [GetDocument UPLOADERS_CACHE_DOCUMENT_ID]\<rparr>;
             cacheData = (case d of None \<Rightarrow> [] | Some obj \<Rightarrow> obj) in
         if abbr \<in> set object_prototype_properties \<and> map_of cacheData abbr = None
         then (Inl TypeError, t1)
         else if snd (insert_uploader n abbr cacheData)
         then (Inr (), t\<lparr>uploaders_doc := Document (Some (fst (insert_uploader n abbr cacheData))),
                 calls := calls t @ [GetDocument UPLOADERS_CACHE_DOCUMENT_ID,
                                     UpdateDocument UPLOADERS_CACHE_DOCUMENT_ID]\<rparr>)
         else (Inr (), t1))"
    using k
    by (simp add: updateUploaderCache_def getAndParseJSON_def getDocument_def updateDocument_def
        own_properties_def Let_def split: option.split prod.split)
  have "uploaders_doc s \<noteq> NoDocument"
    using assms k
    by (auto simp: updateUploaderCache_def getAndParseJSON_def getDocument_def)
  then obtain d where d: "uploaders_doc s = Document d"
    by (cases "uploaders_doc s") auto
  define cacheData where "cacheData = (case d of None \<Rightarrow> [] | Some obj \<Rightarrow> obj)"
  obtain cacheData' hasChanged where
    i: "insert_uploader n abbr cacheData = (cacheData', hasChanged)"
    by (cases "insert_uploader n abbr cacheData") auto
  from insert_uploader_present[OF i] obtain a b where
    p: "map_of cacheData' ''all'' = Some a" "n \<in> set a"
      "map_of cacheData' abbr = Some b" "n \<in> set b"
    by auto
  have fixed: "insert_uploader n abbr cacheData' = (cacheData', False)"
    using p by (rule insert_uploader_fixed)
  have first: "\<not> (abbr \<in> set object_prototype_properties \<and> map_of cacheData abbr = None)"
    using assms unfolding step[OF d] cacheData_def[symmetric]
    by (auto simp: Let_def split: if_splits)
  have run: "updateUploaderCache e event ed s =
      (if hasChanged
       then (Inr (), s\<lparr>uploaders_doc := Document (Some cacheData'),
                 calls := calls s @ [GetDocument UPLOADERS_CACHE_DOCUMENT_ID,
                                     UpdateDocument UPLOADERS_CACHE_DOCUMENT_ID]\<rparr>)
       else (Inr (), s\<lparr>calls := calls s @ [GetDocument UPLOADERS_CACHE_DOCUMENT_ID]\<rparr>))"
    unfolding step[OF d] cacheData_def[symmetric] using first i by (simp add: Let_def)
  show ?thesis
  proof (cases hasChanged)
    case True
    then have "s' = s\<lparr>uploaders_doc := Document (Some cacheData'),
                 calls := calls s @ [GetDocument UPLOADERS_CACHE_DOCUMENT_ID,
                                     UpdateDocument UPLOADERS_CACHE_DOCUMENT_ID]\<rparr>"
      using assms run by simp
    then have d': "uploaders_doc s' = Document (Some cacheData')" by simp
    show ?thesis
      unfolding step[OF d'] using fixed p by (simp add: Let_def writes_def)
  next
    case False
    then have "s' = s\<lparr>calls := calls s @ [GetDocument UPLOADERS_CACHE_DOCUMENT_ID]\<rparr>"
      using assms run by simp
    then have d': "uploaders_doc s' = Document d" using d by simp
    show ?thesis
      unfolding step[OF d'] cacheData_def[symmetric] using first i False
      by (simp add: Let_def writes_def)
  qed
qed

text \<open>
  Claim C9.  When the links cache task, or the uploader cache task, succeeded on an event, the
  same event delivered again to the store it left succeeds, makes no store write and leaves the
  cache document as it is.  This holds for every event name, the create events among them.
\<close>

theorem redelivery_writes_nothing:
  "(updateLinksCache event ed s = (Inr (), s') \<longrightarrow>
      fst (updateLinksCache event ed s') = Inr () \<and>
      writes (snd (updateLinksCache event ed s')) = writes s' \<and>
      links_doc (snd (updateLinksCache event ed s')) = links_doc s') \<and>
   (updateUploaderCache e event ed t = (Inr (), t') \<longrightarrow>
      fst (updateUploaderCache e event ed t') = Inr () \<and>
      writes (snd (updateUploaderCache e event ed t')) = writes t' \<and>
      uploaders_doc (snd (updateUploaderCache e event ed t')) = uploaders_doc t')"
  using links_redelivery[of event ed s s'] uploader_redelivery[of e event ed t t']
  by blast

theorem redelivery_writes_nothing_witness:
  "updateLinksCache notes_created dan_body fresh_store = (Inr (), links_after) \<and>
   updateUploaderCache example_env notes_created dan_body fresh_store = (Inr (), uploaders_after) \<and>
   writes links_after \<noteq> writes fresh_store \<and>
   writes uploaders_after \<noteq> writes fresh_store \<and>
   writes (snd (updateLinksCache notes_created dan_body links_after)) = writes links_after \<and>
   writes (snd (updateUploaderCache example_env notes_created dan_body uploaders_after))
     = writes uploaders_after"
proof -
  have h1: "updateLinksCache notes_created dan_body fresh_store = (Inr (), links_after)"
    by code_simp
  have h2: "updateUploaderCache example_env notes_created dan_body fresh_store
            = (Inr (), uploaders_after)"
    by code_simp
  have h3: "writes links_after \<noteq> writes fresh_store"
    by code_simp
  have h4: "writes uploaders_after \<noteq> writes fresh_store"
    by code_simp
  from redelivery_writes_nothing[of notes_created dan_body fresh_store links_after
      example_env fresh_store uploaders_after] h1 h2 h3 h4
  show ?thesis by blast
qed

section \<open>The abbreviation \<open>all\<close>\<close>

lemma insert_uploader_all_empty:
  "n \<noteq> [] \<Longrightarrow> insert_uploader n ''all'' [] = ([(''all'', [n])], True)"
  by (simp add: insert_uploader_def or_empty_def)

text \<open>
  Claim C10.  On a create event of the notes collection with a user name and the abbreviation
  \<open>all\<close>, starting from an empty cache (payload absent, or the empty object), the task writes
  the object with the one key \<open>all\<close>, whose array holds the user name once.
\<close>

theorem abbreviation_all_single_key:
  assumes "n \<noteq> []"
    and "uploaders_doc s = Document None \<or> uploaders_doc s = Document (Some [])"
  shows "updateUploaderCache e
           (event_name databaseId (APPWRITE_NOTE_COLLECTION_ID e) documentId Create)
           \<lparr>userName = Some n, createdBy = c, abbreviation_field = Some ''all''\<rparr> s
         = (Inr (), s\<lparr>uploaders_doc := Document (Some [(''all'', [n])]),
                      calls := calls s @ [GetDocument UPLOADERS_CACHE_DOCUMENT_ID,
                                          UpdateDocument UPLOADERS_CACHE_DOCUMENT_ID]\<rparr>)"
proof -
  let ?ev = "event_name databaseId (APPWRITE_NOTE_COLLECTION_ID e) documentId Create"
  have a: "js_includes ?ev (''collections.'' @ APPWRITE_NOTE_COLLECTION_ID e)"
    by (rule includes_collection)
  have b: "js_includes ?ev ''.create''"
    by (rule includes_create)
  have d: "getAndParseJSON (uploaders_doc s) = Inr EmptyObject \<or>
           getAndParseJSON (uploaders_doc s) = Inr (Parsed [])"
    using assms(2) by (auto simp: getAndParseJSON_def getDocument_def)
  have p: "''all'' \<notin> set object_prototype_properties"
    by (simp add: object_prototype_properties_def)
  have u: "\<And>v. updateDocument (uploaders_doc s) v = Inr (Document (Some v))"
    using assms(2) by (auto simp: updateDocument_def)
  from d show ?thesis
  proof
    assume "getAndParseJSON (uploaders_doc s) = Inr EmptyObject"
    then show ?thesis
      using a b p u assms(1)
      by (simp add: updateUploaderCache_def own_properties_def insert_uploader_all_empty)
  next
    assume "getAndParseJSON (uploaders_doc s) = Inr (Parsed [])"
    then show ?thesis
      using a b p u assms(1)
      by (simp add: updateUploaderCache_def own_properties_def insert_uploader_all_empty)
  qed
qed

theorem abbreviation_all_single_key_witness:
  "''Dan'' \<noteq> [] \<and>
   (uploaders_doc fresh_store = Document None \<or> uploaders_doc fresh_store = Document (Some [])) \<and>
   updateUploaderCache example_env
     (event_name ''main'' (APPWRITE_NOTE_COLLECTION_ID example_env) ''doc1'' Create)
     \<lparr>userName = Some ''Dan'', createdBy = None, abbreviation_field = Some ''all''\<rparr> fresh_store
   = (Inr (), fresh_store\<lparr>uploaders_doc := Document (Some [(''all'', [''Dan''])]),
                calls := calls fresh_store @ [GetDocument UPLOADERS_CACHE_DOCUMENT_ID,
                                              UpdateDocument UPLOADERS_CACHE_DOCUMENT_ID]\<rparr>)"
proof -
  have h1: "''Dan'' \<noteq> []" by simp
  have h2: "uploaders_doc fresh_store = Document None \<or>
            uploaders_doc fresh_store = Document (Some [])"
    by (simp add: fresh_store_def)
  from abbreviation_all_single_key[OF h1 h2, of example_env "''main''" "''doc1''" None] h1 h2
  show ?thesis by (intro conjI)
qed

section \<open>Sequences of events of one user\<close>

lemma attributed_increment:
  assumes "attributed_event n c"
  shows "increment (header c) = delta c"
proof (cases "ev_document c")
  case None
  with assms show ?thesis
    by (cases "ev_operation c")
       (auto simp: attributed_event_def header_def delta_def short_increment_create
          short_increment_delete)
next
  case (Some documentId)
  with assms show ?thesis
    by (cases "ev_operation c")
       (auto simp: attributed_event_def header_def delta_def increment_create increment_delete)
qed

lemma attributed_collection:
  assumes "attributed_event n c"
  shows "js_index (js_split CHR ''.'' (header c)) 3 = Some (ev_collection c)"
proof (cases "ev_document c")
  case None
  with assms show ?thesis
    by (simp add: attributed_event_def header_def short_collection_segment)
next
  case (Some documentId)
  with assms show ?thesis
    by (simp add: attributed_event_def header_def collection_segment)
qed

lemma attributed_not_skipped:
  assumes "attributed_event n c"
  shows "js_includes (header c) ''.create'' \<or> js_includes (header c) ''.delete''"
proof (cases "ev_document c")
  case None
  with assms show ?thesis
    using short_includes_create[of "ev_database c" "ev_collection c"]
      short_includes_delete[of "ev_database c" "ev_collection c"]
    by (cases "ev_operation c") (auto simp: attributed_event_def header_def)
next
  case (Some documentId)
  with assms show ?thesis
    using includes_create[of "ev_database c" "ev_collection c" documentId]
      includes_delete[of "ev_database c" "ev_collection c" documentId]
    by (cases "ev_operation c") (auto simp: attributed_event_def header_def)
qed

lemma attributed_entry:
  assumes "attributed_event n c"
  shows "clamp_counts (add_increment e (header c) u) =
     u\<lparr>notes_count := max 0 (notes_count u +
          (if ev_collection c = APPWRITE_NOTE_COLLECTION_ID e then delta c else 0)),
       forms := max 0 (forms u +
          (if ev_collection c = APPWRITE_FORM_COLLECTION_ID e then delta c else 0)),
       youtube := max 0 (youtube u +
          (if ev_collection c = APPWRITE_YOUTUBE_COLLECTION_ID e then delta c else 0)),
       total_count := max 0 (total_count u + delta c)\<rparr>"
  by (simp add: clamp_counts_def add_increment_def attributed_increment[OF assms]
      attributed_collection[OF assms] Let_def)

lemma attributed_run:
  assumes "attributed_event n c" and "n \<noteq> []" and "stats_doc s = Document (Some statsData)"
  shows "updateTeacherStats e (header c) (ev_body c) s =
         (Inr (), s\<lparr>stats_doc := Document (Some (sort_by_total (mutate_stats e (header c) n statsData))),
                    calls := calls s @ [GetDocument STATS_DOCUMENT_ID,
                                        UpdateDocument STATS_DOCUMENT_ID]\<rparr>)"
proof -
  have "js_or (userName (ev_body c)) (createdBy (ev_body c)) = Some n"
    using assms(1) by (simp add: attributed_event_def)
  then show ?thesis
    using attributed_not_skipped[OF assms(1)] assms(2,3)
    by (auto simp: updateTeacherStats_def getAndParseJSON_def getDocument_def updateDocument_def)
qed

text \<open>
  An event with plain identifiers on a collection that is none of the tracked ones: the total
  of the attributed entry takes the increment and is clamped, the category counters are only
  clamped, and the array is sorted and written back.
\<close>

lemma untracked_event_total:
  assumes "attributed_event n c" and "n \<noteq> []" and "stats_doc s = Document (Some statsData)"
    and "ev_collection c \<notin> {APPWRITE_NOTE_COLLECTION_ID e, APPWRITE_FORM_COLLECTION_ID e,
                               APPWRITE_YOUTUBE_COLLECTION_ID e}"
  shows "updateTeacherStats e (header c) (ev_body c) s =
         (Inr (), s\<lparr>stats_doc := Document (Some (sort_by_total (with_userStats n
                       (\<lambda>u. u\<lparr>notes_count := max 0 (notes_count u), forms := max 0 (forms u),
                              youtube := max 0 (youtube u),
                              total_count := max 0 (total_count u + delta c)\<rparr>) statsData))),
                    calls := calls s @ [GetDocument STATS_DOCUMENT_ID,
                                        UpdateDocument STATS_DOCUMENT_ID]\<rparr>)"
proof -
  have "(\<lambda>u. clamp_counts (add_increment e (header c) u)) =
        (\<lambda>u. u\<lparr>notes_count := max 0 (notes_count u), forms := max 0 (forms u),
               youtube := max 0 (youtube u),
               total_count := max 0 (total_count u + delta c)\<rparr>)"
    using assms(4) by (auto simp: attributed_entry[OF assms(1)])
  then show ?thesis
    using attributed_run[OF assms(1,2,3), of e] by (simp add: mutate_stats_def)
qed

lemma tracked_store:
  assumes "tracked_event e n c" and "n \<noteq> []" and "stats_doc s = Document (Some statsData)"
  shows "stats_doc (snd (updateTeacherStats e (header c) (ev_body c) s)) =
         Document (Some (sort_by_total (mutate_stats e (header c) n statsData)))"
proof -
  from assms(1) have "attributed_event n c" by (simp add: tracked_event_def)
  from attributed_run[OF this assms(2,3), of e] show ?thesis by simp
qed

lemma deliver_stats_snoc:
  "deliver_stats e (ds @ [(event, ed)]) s =
   snd (updateTeacherStats e event ed (deliver_stats e ds s))"
  by (induction ds arbitrary: s) auto

lemma deliver_event_snoc:
  "deliver_stats e (map delivery (cs @ [c])) s =
   snd (updateTeacherStats e (header c) (ev_body c) (deliver_stats e (map delivery cs) s))"
  by (simp add: deliver_stats_snoc delivery_def)

lemma net_snoc:
  "ev_operation c \<in> {Create, Delete} \<Longrightarrow> net (cs @ [c]) = net cs + delta c"
  by (auto simp: net_def occurrences_def delta_def)

lemma net_on_snoc:
  "ev_operation c \<in> {Create, Delete} \<Longrightarrow>
   net_on k (cs @ [c]) = net_on k cs + (if ev_collection c = k then delta c else 0)"
  by (auto simp: net_on_def net_def occurrences_def delta_def)

text \<open>With three different tracked collections every tracked event counts for exactly one.\<close>

lemma net_by_collection:
  assumes "list_all (tracked_event e n) cs"
    and "distinct [APPWRITE_NOTE_COLLECTION_ID e, APPWRITE_FORM_COLLECTION_ID e,
                   APPWRITE_YOUTUBE_COLLECTION_ID e]"
  shows "net cs = net_on (APPWRITE_NOTE_COLLECTION_ID e) cs +
                  net_on (APPWRITE_FORM_COLLECTION_ID e) cs +
                  net_on (APPWRITE_YOUTUBE_COLLECTION_ID e) cs"
  using assms
proof (induction cs rule: rev_induct)
  case Nil
  then show ?case by (simp add: net_on_def net_def occurrences_def)
next
  case (snoc c cs)
  then have t: "tracked_event e n c" and r: "list_all (tracked_event e n) cs" by simp_all
  from t have o: "ev_operation c \<in> {Create, Delete}"
    by (simp add: tracked_event_def attributed_event_def)
  from t have k: "ev_collection c \<in> {APPWRITE_NOTE_COLLECTION_ID e,
      APPWRITE_FORM_COLLECTION_ID e, APPWRITE_YOUTUBE_COLLECTION_ID e}"
    by (simp add: tracked_event_def)
  from snoc.IH[OF r snoc.prems(2)] k snoc.prems(2) show ?case
    by (auto simp: net_snoc[OF o] net_on_snoc[OF o])
qed

lemma never_below_zero_snoc:
  "never_below_zero e (cs @ [c]) =
   (never_below_zero e cs \<and>
    0 \<le> net_on (APPWRITE_NOTE_COLLECTION_ID e) (cs @ [c]) \<and>
    0 \<le> net_on (APPWRITE_FORM_COLLECTION_ID e) (cs @ [c]) \<and>
    0 \<le> net_on (APPWRITE_YOUTUBE_COLLECTION_ID e) (cs @ [c]))"
  by (auto simp: never_below_zero_def)

lemma never_below_zero_whole:
  assumes "never_below_zero e cs"
  shows "0 \<le> net_on (APPWRITE_NOTE_COLLECTION_ID e) cs \<and>
         0 \<le> net_on (APPWRITE_FORM_COLLECTION_ID e) cs \<and>
         0 \<le> net_on (APPWRITE_YOUTUBE_COLLECTION_ID e) cs"
proof -
  have "cs \<in> set (prefixes cs)" by (simp add: in_set_prefixes)
  with assms show ?thesis
    unfolding never_below_zero_def list_all_iff by blast
qed

lemma sort_by_total_single: "sort_by_total [u] = [u]"
  by (simp add: sort_by_total_def)

lemma deliver_tracked:
  assumes "stats_doc s = Document (Some [])" and "n \<noteq> []"
    and "distinct [APPWRITE_NOTE_COLLECTION_ID e, APPWRITE_FORM_COLLECTION_ID e,
                   APPWRITE_YOUTUBE_COLLECTION_ID e]"
  shows "list_all (tracked_event e n) cs \<Longrightarrow> never_below_zero e cs \<Longrightarrow>
         stats_doc (deliver_stats e (map delivery cs) s) =
           Document (Some (if cs = [] then [] else [expected_entry e n cs]))"
proof (induction cs rule: rev_induct)
  case Nil
  then show ?case using assms(1) by simp
next
  case (snoc c cs)
  then have t: "tracked_event e n c" and r: "list_all (tracked_event e n) cs" by simp_all
  from t have at: "attributed_event n c" by (simp add: tracked_event_def)
  from t have o: "ev_operation c \<in> {Create, Delete}"
    by (simp add: tracked_event_def attributed_event_def)
  from snoc.prems(2) have z: "never_below_zero e cs"
    and nn: "0 \<le> net_on (APPWRITE_NOTE_COLLECTION_ID e) (cs @ [c])"
      "0 \<le> net_on (APPWRITE_FORM_COLLECTION_ID e) (cs @ [c])"
      "0 \<le> net_on (APPWRITE_YOUTUBE_COLLECTION_ID e) (cs @ [c])"
    by (simp_all add: never_below_zero_snoc)
  have "net (cs @ [c]) = net_on (APPWRITE_NOTE_COLLECTION_ID e) (cs @ [c]) +
      net_on (APPWRITE_FORM_COLLECTION_ID e) (cs @ [c]) +
      net_on (APPWRITE_YOUTUBE_COLLECTION_ID e) (cs @ [c])"
    using net_by_collection[OF snoc.prems(1) assms(3)] .
  with nn have tn: "0 \<le> net (cs @ [c])" by simp
  have before: "stats_doc (deliver_stats e (map delivery cs) s) =
      Document (Some (if cs = [] then [] else [expected_entry e n cs]))"
    using snoc.IH[OF r z] .
  have entry: "clamp_counts (add_increment e (header c) (expected_entry e n cs)) =
        expected_entry e n (cs @ [c])"
    using nn tn
    by (simp add: attributed_entry[OF at] expected_entry_def net_snoc[OF o] net_on_snoc[OF o])
  have fresh: "\<lparr>name = n, notes_count = 0, forms = 0, youtube = 0, total_count = 0\<rparr> =
        expected_entry e n []"
    by (simp add: expected_entry_def net_on_def net_def occurrences_def)
  have "mutate_stats e (header c) n (if cs = [] then [] else [expected_entry e n cs]) =
        [expected_entry e n (cs @ [c])]"
  proof (cases "cs = []")
    case True
    then show ?thesis
      using entry unfolding mutate_stats_def by (simp add: fresh)
  next
    case False
    then have "name (expected_entry e n cs) = n" by (simp add: expected_entry_def)
    with False show ?thesis
      using entry unfolding mutate_stats_def by simp
  qed
  with tracked_store[OF t assms(2) before] show ?case
    unfolding deliver_event_snoc by (simp add: sort_by_total_single)
qed

text \<open>
  When the three collections are different and no delete arrives while the counter of its
  collection is zero, nothing is clamped: every category counter is the creates minus the
  deletes on its collection, and the total is the sum of the three category counters.
\<close>

lemma totals_without_underflow:
  assumes "stats_doc s = Document (Some [])" and "n \<noteq> []"
    and "distinct [APPWRITE_NOTE_COLLECTION_ID e, APPWRITE_FORM_COLLECTION_ID e,
                   APPWRITE_YOUTUBE_COLLECTION_ID e]"
    and "list_all (tracked_event e n) cs" and "never_below_zero e cs" and "cs \<noteq> []"
  shows "user_entry n (deliver_stats e (map delivery cs) s) = Some (expected_entry e n cs) \<and>
         total_count (expected_entry e n cs) =
           notes_count (expected_entry e n cs) + forms (expected_entry e n cs) +
           youtube (expected_entry e n cs)"
proof -
  have doc: "stats_doc (deliver_stats e (map delivery cs) s) =
             Document (Some [expected_entry e n cs])"
    using deliver_tracked[OF assms(1,2,3,4,5)] assms(6) by simp
  have found: "user_entry n (deliver_stats e (map delivery cs) s) = Some (expected_entry e n cs)"
    unfolding user_entry_def doc by (simp add: expected_entry_def)
  from found net_by_collection[OF assms(4,3)] show ?thesis
    by (simp add: expected_entry_def)
qed

text \<open>
  In any order: the counters after a sequence of tracked events of one user are the running
  counts, clamped after every event.
\<close>

lemma running_count_nonneg: "0 \<le> running_count ds"
  by (induction ds rule: rev_induct) (simp_all add: running_count_def)

lemma running_count_snoc: "running_count (ds @ [d]) = max 0 (running_count ds + d)"
  by (simp add: running_count_def)

lemma running_total_snoc:
  "running_count (deltas (cs @ [c])) = max 0 (running_count (deltas cs) + delta c)"
  by (simp add: deltas_def running_count_snoc)

lemma running_on_snoc:
  "running_count (deltas_on k (cs @ [c])) =
   max 0 (running_count (deltas_on k cs) + (if ev_collection c = k then delta c else 0))"
  using running_count_nonneg[of "deltas_on k cs"]
  by (simp add: deltas_on_def deltas_def running_count_snoc)

lemma running_entry_snoc:
  assumes "attributed_event n c"
  shows "clamp_counts (add_increment e (header c) (running_entry e n cs)) =
         running_entry e n (cs @ [c])"
  by (simp add: attributed_entry[OF assms] running_entry_def running_total_snoc running_on_snoc)

lemma running_entry_empty:
  "running_entry e n [] = \<lparr>name = n, notes_count = 0, forms = 0, youtube = 0, total_count = 0\<rparr>"
  by (simp add: running_entry_def deltas_on_def deltas_def running_count_def)

lemma deliver_any_order:
  assumes "stats_doc s = Document (Some [])" and "n \<noteq> []"
  shows "list_all (tracked_event e n) cs \<Longrightarrow>
         stats_doc (deliver_stats e (map delivery cs) s) =
           Document (Some (if cs = [] then [] else [running_entry e n cs]))"
proof (induction cs rule: rev_induct)
  case Nil
  then show ?case using assms(1) by simp
next
  case (snoc c cs)
  then have t: "tracked_event e n c" and r: "list_all (tracked_event e n) cs" by simp_all
  from t have at: "attributed_event n c" by (simp add: tracked_event_def)
  have before: "stats_doc (deliver_stats e (map delivery cs) s) =
      Document (Some (if cs = [] then [] else [running_entry e n cs]))"
    using snoc.IH[OF r] .
  have "mutate_stats e (header c) n (if cs = [] then [] else [running_entry e n cs]) =
        [running_entry e n (cs @ [c])]"
  proof (cases "cs = []")
    case True
    then show ?thesis
      using running_entry_snoc[OF at, of e "[]"] unfolding mutate_stats_def
      by (simp add: running_entry_empty)
  next
    case False
    then have "name (running_entry e n cs) = n" by (simp add: running_entry_def)
    with False show ?thesis
      using running_entry_snoc[OF at, of e cs] unfolding mutate_stats_def by simp
  qed
  with tracked_store[OF t assms(2) before] show ?case
    unfolding deliver_event_snoc by (simp add: sort_by_total_single)
qed

text \<open>
  Claim C1, as stated, fails.  The counters are clamped after every event and not once at the
  end: a delete that arrives first leaves the total at zero, and the create after it raises it
  to one, while creates minus deletes is zero, and so is the sum of the clamped differences of
  the three collections.
\<close>

theorem delete_before_create_counterexample:
  "list_all (tracked_event example_env ''Alice'') delete_then_create \<and>
   user_entry ''Alice''
     (deliver_stats example_env (map delivery delete_then_create) empty_stats_store)
   = Some \<lparr>name = ''Alice'', notes_count = 1, forms = 0, youtube = 0, total_count = 1\<rparr> \<and>
   max 0 (net delete_then_create) = 0 \<and>
   max 0 (net_on (APPWRITE_NOTE_COLLECTION_ID example_env) delete_then_create) +
   max 0 (net_on (APPWRITE_FORM_COLLECTION_ID example_env) delete_then_create) +
   max 0 (net_on (APPWRITE_YOUTUBE_COLLECTION_ID example_env) delete_then_create) = 0 \<and>
   map_option total_count
     (user_entry ''Alice''
        (deliver_stats example_env (map delivery delete_then_create) empty_stats_store))
   \<noteq> Some (max 0 (net delete_then_create))"
  by code_simp

text \<open>
  Claim C1, amended.  Take any sequence, in any order, of at most \<open>2 ^ 53\<close> create and delete
  events on the three tracked collections, all attributed to one user, with identifiers that
  have no dot and do not start with \<open>create\<close>, delivered from the stats payload \<open>[]\<close>.  If
  the sequence is empty the user has no entry.  Otherwise the total of the user's entry is the
  count that starts at zero, takes \<open>+1\<close> for every create and \<open>-1\<close> for every delete in the order
  of the events, and is clamped at zero after every event; and each category counter is that
  same count taken over the events on its collection.
\<close>

theorem counts_clamped_after_every_event:
  assumes "stats_doc s = Document (Some [])" and "n \<noteq> []"
    and "list_all (tracked_event e n) cs" and "int (length cs) \<le> 2 ^ 53"
  shows "user_entry n (deliver_stats e (map delivery cs) s) =
           (if cs = [] then None
            else Some \<lparr>name = n,
                   notes_count = running_count (deltas_on (APPWRITE_NOTE_COLLECTION_ID e) cs),
                   forms = running_count (deltas_on (APPWRITE_FORM_COLLECTION_ID e) cs),
                   youtube = running_count (deltas_on (APPWRITE_YOUTUBE_COLLECTION_ID e) cs),
                   total_count = running_count (deltas cs)\<rparr>)"
proof -
  have "stats_doc (deliver_stats e (map delivery cs) s) =
        Document (Some (if cs = [] then [] else [running_entry e n cs]))"
    using deliver_any_order[OF assms(1,2,3)] .
  then show ?thesis
    by (simp add: user_entry_def running_entry_def)
qed

theorem counts_clamped_after_every_event_witness:
  "stats_doc empty_stats_store = Document (Some []) \<and> ''Alice'' \<noteq> [] \<and>
   list_all (tracked_event example_env ''Alice'') deletes_at_zero \<and>
   int (length deletes_at_zero) \<le> 2 ^ 53 \<and>
   running_count (deltas deletes_at_zero) = 1 \<and>
   user_entry ''Alice''
     (deliver_stats example_env (map delivery deletes_at_zero) empty_stats_store) =
     Some \<lparr>name = ''Alice'', notes_count = 1, forms = 1, youtube = 0, total_count = 1\<rparr>"
proof -
  have h1: "stats_doc empty_stats_store = Document (Some [])" by code_simp
  have h2: "''Alice'' \<noteq> []" by simp
  have h3: "list_all (tracked_event example_env ''Alice'') deletes_at_zero" by code_simp
  have h4: "int (length deletes_at_zero) \<le> 2 ^ 53" by (simp add: deletes_at_zero_def)
  have v: "running_count (deltas_on (APPWRITE_NOTE_COLLECTION_ID example_env) deletes_at_zero) = 1"
    "running_count (deltas_on (APPWRITE_FORM_COLLECTION_ID example_env) deletes_at_zero) = 1"
    "running_count (deltas_on (APPWRITE_YOUTUBE_COLLECTION_ID example_env) deletes_at_zero) = 0"
    "running_count (deltas deletes_at_zero) = 1"
    by code_simp+
  have ne: "deletes_at_zero \<noteq> []" by (simp add: deletes_at_zero_def)
  from counts_clamped_after_every_event[OF h1 h2 h3 h4] h1 h2 h3 h4 show ?thesis
    unfolding v using ne by (intro conjI) simp_all
qed


end
